theory Spec2Isabelle
  imports Main "HOL-Library.Word"
begin

section \<open>Segmentation.py: data model\<close>

text \<open>
  The arrays of \<^verbatim>\<open>SegmentAssembleImageFilter\<close> and \<^verbatim>\<open>SegmentSplitImageFilter\<close> are only
  combined voxel by voxel, so a volume is the list of its voxels in C order; the shape of an
  array is then the number of its voxels. Arrays of different voxel counts make numpy raise
  \<^verbatim>\<open>ValueError\<close> (numpy's broadcasting of a smaller array is left out: such an input is
  answered by \<^verbatim>\<open>ValueError\<close> here). Mask files and the labeled volume hold 8-bit unsigned
  voxels (every volume this module writes is cast to \<^verbatim>\<open>sitkUInt8\<close>). The integer IDs of the
  tables are non-negative Python literals and are natural numbers here; the label array of
  the assembler, promoted by numpy to 64-bit integers, holds natural numbers until the final
  cast. Failures of the imaging and file libraries themselves (unreadable files, full disks)
  are outside the model.
\<close>

type_synonym u8 = "8 word"
type_synonym volume = "u8 list"

text \<open>A directory: its entries in listing order, each file name with the file's contents.\<close>

type_synonym 'a folder = "(string \<times> 'a) list"

datatype error =
    AssertionError string
  | AttributeError
  | TypeError
  | ValueError
  | IndexError
  | KeyError

text \<open>The calls with an effect outside the process, in the order the code makes them.\<close>

datatype 'v event =
    ReadImage string
  | WriteImage string 'v
  | Imread string
  | Mkdir string
  | Makedirs string

definition listdir :: "'a folder \<Rightarrow> string list" where
  "listdir d = map fst d"

text \<open>\<^verbatim>\<open>fname[0:-4]\<close>: the name without its last four characters, empty when it is shorter.\<close>

definition stem :: "string \<Rightarrow> string" where
  "stem fname = take (length fname - 4) fname"

text \<open>\<^verbatim>\<open>a.astype(bool)\<close> on an integer array.\<close>

definition astype_bool :: "'a::zero list \<Rightarrow> bool list" where
  "astype_bool a = map (\<lambda>v. v \<noteq> 0) a"

section \<open>SegmentAssembleImageFilter\<close>

text \<open>The class attribute \<^verbatim>\<open>OrganID\<close>; a dict iterates its keys in the order written.\<close>

definition OrganID :: "(string \<times> nat) list" where
  "OrganID =
    [(''Outline'', 10), (''Body'', 10),
     (''Skin'', 11), (''Muscle'', 13),
     (''Bone'', 46), (''Skeleton'', 46), (''Marrow'', 47),
     (''SCord'', 65), (''SpinalCore'', 65), (''Brain'', 18), (''Eyes'', 22),
     (''Lung'', 33), (''Heart'', 26), (''Breast'', 19),
     (''Intestine'', 44), (''Liver'', 32), (''Kidney'', 28), (''Stomach'', 67),
     (''ParotidGland'', 43),
     (''Bladder'', 15), (''Ovary'', 86), (''Spleen'', 66), (''Thyroid'', 70),
     (''Pancrease'', 38), (''GallBladder'', 24)]"

text \<open>
  One pass of the loop body, lines 186 to 188:
  \<^verbatim>\<open>seg_minus_organ = seg_bool ^ (seg_bool & organ_bool)\<close>,
  \<^verbatim>\<open>seg = seg * seg_minus_organ + organ_bool * ID\<close>.
\<close>

definition seg_minus_organ :: "bool list \<Rightarrow> bool list \<Rightarrow> bool list" where
  "seg_minus_organ seg_bool organ_bool =
     map2 (\<lambda>s g. s \<noteq> (s \<and> g)) seg_bool organ_bool"

definition paint :: "nat list \<Rightarrow> bool list \<Rightarrow> bool list \<Rightarrow> nat \<Rightarrow> nat list" where
  "paint seg seg_bool organ_bool ID =
     map2 (+) (map2 (\<lambda>s m. s * of_bool m) seg (seg_minus_organ seg_bool organ_bool))
              (map (\<lambda>g. of_bool g * ID) organ_bool)"

text \<open>
  The loop of lines 177 to 188 over the table \<open>tbl\<close>, from the entry it has reached. The
  state is \<^verbatim>\<open>seg\<close>, \<^verbatim>\<open>seg_bool\<close> and the log of calls so far. A table entry whose file
  \<^verbatim>\<open>organ_name + ".nii"\<close> is not in the directory is passed over.
\<close>

fun paint_all ::
  "volume folder \<Rightarrow> (string \<times> nat) list \<Rightarrow> nat list \<Rightarrow> bool list \<Rightarrow> volume event list
     \<Rightarrow> volume event list \<times> (error + nat list)" where
  "paint_all d [] seg seg_bool log = (log, Inr seg)"
| "paint_all d ((organ_name, ID) # rest) seg seg_bool log =
     (let fname = organ_name @ ''.nii'' in
      case map_of d fname of
        None \<Rightarrow> paint_all d rest seg seg_bool log
      | Some organ \<Rightarrow>
          (let log' = log @ [ReadImage fname];
               organ_bool = astype_bool organ
           in if length organ_bool \<noteq> length seg then (log', Inl ValueError)
              else (let seg' = paint seg seg_bool organ_bool ID
                    in paint_all d rest seg' (astype_bool seg') log')))"

text \<open>
  \<^verbatim>\<open>Execute\<close>, with the table as a parameter. \<open>img\<close> is \<^verbatim>\<open>self.img\<close> (the voxels of
  the reference image, \<^verbatim>\<open>None\<close> until one is read), \<open>self_fpath_save\<close> the attribute
  and \<open>fpath_save\<close> the argument. The result is the log of calls and either the error
  raised or the volume written and returned.
\<close>

definition Assemble_Execute_with ::
  "(string \<times> nat) list \<Rightarrow> int list option \<Rightarrow> volume folder \<Rightarrow> string option \<Rightarrow> string option
     \<Rightarrow> volume event list \<times> (error + volume)" where
  "Assemble_Execute_with tbl img folder_organs self_fpath_save fpath_save =
     (case (case fpath_save of None \<Rightarrow> self_fpath_save | Some p \<Rightarrow> Some p) of
        None \<Rightarrow> ([], Inl (AssertionError ''Save path is not specified.''))
      | Some path \<Rightarrow>
          (let fnames_miss = filter (\<lambda>fname. stem fname \<notin> set (map fst tbl)) (listdir folder_organs)
           in if length fnames_miss \<noteq> 0 then ([], Inl (AssertionError ''Missed organ in OrganID.''))
              else (case img of
                      None \<Rightarrow> ([], Inl TypeError)
                    | Some ref \<Rightarrow>
                        (let seg = replicate (length ref) (0::nat);
                             seg_bool = astype_bool seg
                         in case paint_all folder_organs tbl seg seg_bool [] of
                              (log, Inl e) \<Rightarrow> (log, Inl e)
                            | (log, Inr seg') \<Rightarrow>
                                (let out = map (of_nat :: nat \<Rightarrow> u8) seg'
                                 in (log @ [WriteImage path out], Inr out))))))"

definition Assemble_Execute ::
  "int list option \<Rightarrow> volume folder \<Rightarrow> string option \<Rightarrow> string option
     \<Rightarrow> volume event list \<times> (error + volume)" where
  "Assemble_Execute = Assemble_Execute_with OrganID"


text \<open>
  \<^verbatim>\<open>AnalyseOverlap\<close>. Its percentages and its ratio are 64-bit floating point numbers; the
  operations on them are parameters: \<open>fdiv a b\<close> is numpy's true division of two
  integers (it does not raise on a zero divisor), \<open>fmul100\<close> the product with 100,
  \<open>fround k\<close> is \<^verbatim>\<open>.round(decimals=k)\<close> and \<open>ge1\<close> the test \<^verbatim>\<open>>= 1\<close>.
\<close>

record 'f float_ops =
  fdiv :: "nat \<Rightarrow> nat \<Rightarrow> 'f"
  fmul100 :: "'f \<Rightarrow> 'f"
  fround :: "nat \<Rightarrow> 'f \<Rightarrow> 'f"
  ge1 :: "'f \<Rightarrow> bool"

text \<open>The fields of the two \<^verbatim>\<open>print\<close> calls of one reported pair.\<close>

record 'f report =
  r_overlap :: nat
  r_percent_i :: 'f
  r_percent_j :: 'f
  r_organ_i :: string
  r_n_i :: nat
  r_organ_j :: string
  r_n_j :: nat
  r_ratio :: 'f

text \<open>\<^verbatim>\<open>np.sum\<close> of a boolean array.\<close>

definition np_sum :: "bool list \<Rightarrow> nat" where
  "np_sum a = length (filter (\<lambda>b. b) a)"

text \<open>The index pairs of the two nested \<^verbatim>\<open>range\<close> loops, in the order they are visited.\<close>

definition index_pairs :: "nat \<Rightarrow> (nat \<times> nat) list" where
  "index_pairs n = concat (map (\<lambda>i. map (\<lambda>j. (i, j)) [Suc i..<n]) [0..<n])"

fun analyse_pairs ::
  "'f float_ops \<Rightarrow> volume folder \<Rightarrow> (nat \<times> nat) list \<Rightarrow> volume event list \<Rightarrow> 'f report list
     \<Rightarrow> volume event list \<times> 'f report list \<times> (error + nat)" where
  "analyse_pairs ops organs [] log printed = (log, printed, Inr 0)"
| "analyse_pairs ops organs ((i, j) # rest) log printed =
     (let organ_i = stem (fst (organs ! i));
          organ_j = stem (fst (organs ! j));
          img_i = astype_bool (snd (organs ! i));
          img_j = astype_bool (snd (organs ! j));
          log' = log @ [ReadImage (fst (organs ! i)), ReadImage (fst (organs ! j))];
          n_i = np_sum img_i;
          n_j = np_sum img_j
      in if length img_i \<noteq> length img_j then (log', printed, Inl ValueError)
         else (let overlap = np_sum (map2 (\<and>) img_i img_j);
                   percent_i = fround ops 1 (fmul100 ops (fdiv ops overlap n_i));
                   percent_j = fround ops 1 (fmul100 ops (fdiv ops overlap n_j));
                   ratio = fround ops 2 (fdiv ops n_i n_j)
               in if overlap \<noteq> 0 \<and> (ge1 ops percent_i \<or> ge1 ops percent_j)
                  then analyse_pairs ops organs rest log'
                         (printed @ [\<lparr>r_overlap = overlap, r_percent_i = percent_i,
                                      r_percent_j = percent_j, r_organ_i = organ_i, r_n_i = n_i,
                                      r_organ_j = organ_j, r_n_j = n_j, r_ratio = ratio\<rparr>])
                  else analyse_pairs ops organs rest log' printed))"

text \<open>
  The result is the log of calls, the lines printed and the value returned (or the error
  raised). The stop list is compared with the file names as listed.
\<close>

definition AnalyseOverlap ::
  "'f float_ops \<Rightarrow> volume folder \<Rightarrow> string list option
     \<Rightarrow> volume event list \<times> 'f report list \<times> (error + nat)" where
  "AnalyseOverlap ops folder_organs stop_organ_list =
     (let stop = (case stop_organ_list of None \<Rightarrow> [] | Some l \<Rightarrow> l);
          organs = filter (\<lambda>organ. fst organ \<notin> set stop) folder_organs
      in analyse_pairs ops organs (index_pairs (length organs)) [] [])"

section \<open>SegmentSplitImageFilter\<close>

definition StandardName :: "(nat \<times> string) list" where
  "StandardName =
    [(10, ''Body''), (11, ''Skin''), (13, ''Muscle''), (15, ''Bladder''), (18, ''Brain''),
     (19, ''Breast''), (21, ''Esophagus''), (22, ''Eye''), (23, ''Len''), (24, ''GallBladder''),
     (26, ''Heart''), (28, ''Kidney''), (29, ''Larynx''), (32, ''Liver''), (33, ''Lung''),
     (37, ''OralCavity''), (38, ''Pancreas''), (42, ''Pituitary''), (43, ''Parotid''),
     (44, ''Intestine''),
     (46, ''Bone''), (47, ''Marrow''), (63, ''TMJ''), (65, ''SpinalCord''), (66, ''Spleen''),
     (67, ''Stomach''), (70, ''Thyroid''), (73, ''Trachea''), (75, ''Cochlea''),
     (76, ''BrainStem''),
     (77, ''TemporalLobe''), (78, ''OpticChiasm''), (79, ''OpticalNerve''), (80, ''Rectum''),
     (81, ''Sigmoid''),
     (82, ''Duodenum''), (86, ''Ovary'')]"

definition MultipleOrgans :: "(nat \<times> nat list) list" where
  "MultipleOrgans = [(10, [10, 11]), (22, [22, 23]), (18, [18, 76, 77]), (46, [46, 47])]"

text \<open>\<^verbatim>\<open>arr[sel] = val\<close> for a boolean array \<open>sel\<close>, and the two comparisons of an array with a Python integer.\<close>

definition assign_where :: "bool list \<Rightarrow> 'a \<Rightarrow> 'a list \<Rightarrow> 'a list" where
  "assign_where sel val arr = map2 (\<lambda>m a. if m then val else a) sel arr"

definition neq_ID :: "volume \<Rightarrow> nat \<Rightarrow> bool list" where
  "neq_ID seg ID = map (\<lambda>v. unat v \<noteq> ID) seg"

definition eq_ID :: "volume \<Rightarrow> nat \<Rightarrow> bool list" where
  "eq_ID seg ID = map (\<lambda>v. unat v = ID) seg"

text \<open>
  The three lines \<^verbatim>\<open>seg_organ = np.copy(seg)\<close>, \<^verbatim>\<open>seg_organ[seg != ID] = 0\<close>,
  \<^verbatim>\<open>seg_organ[seg == ID] = 255\<close>, which the source has at lines 227 to 229 and again at
  lines 251 to 253.
\<close>

definition extract_label :: "volume \<Rightarrow> nat \<Rightarrow> volume" where
  "extract_label seg ID =
     (let seg_organ = seg;
          seg_organ = assign_where (neq_ID seg ID) 0 seg_organ;
          seg_organ = assign_where (eq_ID seg ID) 255 seg_organ
      in seg_organ)"

text \<open>The loop of \<^verbatim>\<open>_AssembleMultipleOrgans\<close>; \<^verbatim>\<open>+=\<close> on 8-bit arrays wraps around.\<close>

definition add_organs :: "volume \<Rightarrow> nat list \<Rightarrow> volume \<Rightarrow> volume" where
  "add_organs seg IDs seg_organ_main =
     foldl (\<lambda>acc ID. map2 (+) acc (extract_label seg ID)) seg_organ_main IDs"

definition AssembleMultipleOrgans :: "volume \<Rightarrow> nat \<Rightarrow> error + volume" where
  "AssembleMultipleOrgans seg ID_main =
     (case map_of MultipleOrgans ID_main of
        None \<Rightarrow> Inl KeyError
      | Some IDs \<Rightarrow> Inr (add_organs seg IDs (replicate (length seg) 0)))"

text \<open>\<^verbatim>\<open>str\<close> of a non-negative integer, and \<^verbatim>\<open>os.path.join\<close> of two POSIX paths.\<close>

definition digit_char :: "nat \<Rightarrow> char" where
  "digit_char n = ''0123456789'' ! n"

fun str_nat :: "nat \<Rightarrow> string" where
  "str_nat n = (if n < 10 then [digit_char n] else str_nat (n div 10) @ [digit_char (n mod 10)])"

declare str_nat.simps [simp del]

definition path_join :: "string \<Rightarrow> string \<Rightarrow> string" where
  "path_join a b =
     (if take 1 b = ''/'' then b
      else if a = [] \<or> last a = CHR ''/'' then a @ b
      else a @ ''/'' @ b)"

definition organ_fname :: "nat \<Rightarrow> string \<Rightarrow> string" where
  "organ_fname ID name = str_nat ID @ ''_'' @ name @ ''.nii''"

text \<open>The loop of lines 245 to 260 over the table \<open>names\<close>, from the entry it has reached.\<close>

fun split_all ::
  "string \<Rightarrow> volume \<Rightarrow> (nat \<times> string) list \<Rightarrow> volume event list
     \<Rightarrow> volume event list \<times> (error + unit)" where
  "split_all folder_save seg [] log = (log, Inr ())"
| "split_all folder_save seg ((ID, name) # rest) log =
     (if ID \<in> set (map unat seg) then
        (case (if ID \<in> set (map fst MultipleOrgans) then AssembleMultipleOrgans seg ID
               else Inr (extract_label seg ID)) of
           Inl e \<Rightarrow> (log, Inl e)
         | Inr seg_organ \<Rightarrow>
             (let fpath = path_join folder_save (organ_fname ID name)
              in split_all folder_save seg rest (log @ [WriteImage fpath seg_organ])))
      else split_all folder_save seg rest log)"

text \<open>
  \<^verbatim>\<open>Execute\<close>. \<open>fpath_seg\<close> names the labeled volume and \<open>seg\<close> is what the file holds;
  \<open>path_exists\<close> is \<^verbatim>\<open>os.path.exists\<close>.
\<close>

definition Split_Execute ::
  "string \<Rightarrow> volume \<Rightarrow> (string \<Rightarrow> bool) \<Rightarrow> string option \<Rightarrow> string option
     \<Rightarrow> volume event list \<times> (error + unit)" where
  "Split_Execute fpath_seg seg path_exists self_folder_save folder_save =
     (case (case folder_save of None \<Rightarrow> self_folder_save | Some f \<Rightarrow> Some f) of
        None \<Rightarrow> ([], Inl (AssertionError ''folder to save is not specified.''))
      | Some folder \<Rightarrow>
          split_all folder seg StandardName
            ((if \<not> path_exists folder then [Makedirs folder] else []) @ [ReadImage fpath_seg]))"


section \<open>Jpg2niiConverter\<close>

text \<open>
  \<^verbatim>\<open>OrganConvert\<close> indexes its array by layer and flips it, so here an array keeps its
  three axes: a list of layers, each a list of rows. The array takes the voxel type of the
  reference image, taken to hold every value from 0 to 255 and modelled by the integers; the
  pixels of a slice, read as a gray-scale image, are 8-bit.
\<close>

type_synonym 'a slice = "'a list list"
type_synonym 'a volume3 = "'a list list list"

definition map3 :: "('a \<Rightarrow> 'b) \<Rightarrow> 'a volume3 \<Rightarrow> 'b volume3" where
  "map3 f a = map (map (map f)) a"

definition zeros_like :: "int volume3 \<Rightarrow> int volume3" where
  "zeros_like a = map3 (\<lambda>v. 0) a"

text \<open>
  \<^verbatim>\<open>fname[-8:-4]\<close>, handed to the builtin \<^verbatim>\<open>int\<close>, which is the parameter \<open>py_int\<close>.
\<close>

definition GetImageLayerByName :: "(string \<Rightarrow> error + int) \<Rightarrow> string \<Rightarrow> error + int" where
  "GetImageLayerByName py_int fname =
     py_int (take ((length fname - 4) - (length fname - 8)) (drop (length fname - 8) fname))"

text \<open>
  \<^verbatim>\<open>seg[z] = seg_slice\<close>: a negative index counts from the end, an index out of range
  raises, and so does a slice of another shape (broadcasting left out, as above).
\<close>

definition setitem :: "'a volume3 \<Rightarrow> int \<Rightarrow> 'a slice \<Rightarrow> error + 'a volume3" where
  "setitem seg z seg_slice =
     (let n = int (length seg);
          k = (if z < 0 then z + n else z)
      in if k < 0 \<or> n \<le> k then Inl IndexError
         else if map length seg_slice \<noteq> map length (seg ! nat k) then Inl ValueError
         else Inr (seg[nat k := seg_slice]))"

text \<open>
  The loop of lines 82 to 88 over the directory, from the entry it has reached. A file is
  given by its name, the extension \<^verbatim>\<open>filetype.guess\<close> finds for it (\<^verbatim>\<open>None\<close> when it
  finds none) and the gray-scale image \<^verbatim>\<open>cv2.imread\<close> reads from it. The result is the
  log, the array as the loop leaves it, and the error that ended the loop, if one did.
\<close>

fun place_slices ::
  "(string \<Rightarrow> error + int) \<Rightarrow> (string option \<times> u8 slice) folder \<Rightarrow> int volume3
     \<Rightarrow> u8 volume3 event list \<Rightarrow> u8 volume3 event list \<times> int volume3 \<times> error option" where
  "place_slices GetImageLayerMethod [] seg log = (log, seg, None)"
| "place_slices GetImageLayerMethod ((fname, kind, seg_slice) # rest) seg log =
     (case kind of
        None \<Rightarrow> (log, seg, Some AttributeError)
      | Some extension \<Rightarrow>
          if extension \<noteq> ''jpg''
          then (log, seg, Some (AssertionError ''Wrong type in specified folder.''))
          else (let log' = log @ [Imread fname]
                in case GetImageLayerMethod fname of
                     Inl e \<Rightarrow> (log', seg, Some e)
                   | Inr z \<Rightarrow>
                       (case setitem seg z (map (map uint) seg_slice) of
                          Inl e \<Rightarrow> (log', seg, Some e)
                        | Inr seg' \<Rightarrow> place_slices GetImageLayerMethod rest seg' log')))"

text \<open>Lines 91 and 92, one masked assignment after the other.\<close>

definition binarize :: "int \<Rightarrow> int volume3 \<Rightarrow> int volume3" where
  "binarize threshold seg =
     (let seg1 = map3 (\<lambda>v. if v > threshold then 255 else v) seg;
          seg2 = map3 (\<lambda>v. if v \<le> threshold then 0 else v) seg1
      in seg2)"

text \<open>\<^verbatim>\<open>np.flip(seg)\<close> with no \<^verbatim>\<open>axis\<close> argument reverses the order along every axis.\<close>

definition np_flip :: "'a volume3 \<Rightarrow> 'a volume3" where
  "np_flip a = rev (map (\<lambda>layer. rev (map rev layer)) a)"

text \<open>\<^verbatim>\<open>os.path.dirname\<close> of a POSIX path.\<close>

definition dirname :: "string \<Rightarrow> string" where
  "dirname p =
     (let head = rev (dropWhile (\<lambda>c. c \<noteq> CHR ''/'') (rev p))
      in if head \<noteq> [] \<and> head \<noteq> replicate (length head) (CHR ''/'')
         then rev (dropWhile (\<lambda>c. c = CHR ''/'') (rev head))
         else head)"

text \<open>
  \<^verbatim>\<open>OrganConvert\<close>. \<open>GetImageLayerMethod\<close> and \<open>threshold\<close> are the optional arguments
  (\<^verbatim>\<open>None\<close> and 128 when left out); \<open>path_exists\<close> is \<^verbatim>\<open>os.path.exists\<close>.
\<close>

definition OrganConvert ::
  "(string \<Rightarrow> error + int) \<Rightarrow> int volume3 option \<Rightarrow> (string \<Rightarrow> bool)
     \<Rightarrow> (string option \<times> u8 slice) folder \<Rightarrow> string \<Rightarrow> (string \<Rightarrow> error + int) option \<Rightarrow> int
     \<Rightarrow> u8 volume3 event list \<times> (error + u8 volume3)" where
  "OrganConvert py_int img path_exists folder_jpg fpath_save GetImageLayerMethod threshold =
     (let method = (case GetImageLayerMethod of
                      None \<Rightarrow> GetImageLayerByName py_int
                    | Some m \<Rightarrow> m)
      in case img of
           None \<Rightarrow> ([], Inl TypeError)
         | Some ref \<Rightarrow>
             (case place_slices method folder_jpg (zeros_like ref) [] of
                (log, seg, Some e) \<Rightarrow> (log, Inl e)
              | (log, seg, None) \<Rightarrow>
                  (let seg = binarize threshold seg;
                       out = map3 (word_of_int :: int \<Rightarrow> u8) (np_flip seg);
                       folder_save = dirname fpath_save;
                       log' = log @ (if \<not> path_exists folder_save then [Mkdir folder_save] else [])
                   in (log' @ [WriteImage fpath_save out], Inr out))))"

section \<open>Notions used in the statements\<close>

text \<open>
  Auxiliary notions for the statements below. \<open>fg d v organ_name\<close>: the directory has the
  file \<^verbatim>\<open>organ_name + ".nii"\<close> and its mask is foreground at voxel \<open>v\<close>.
  \<open>label_at d tbl v s0\<close>: the ID of the last entry of \<open>tbl\<close> that is foreground at \<open>v\<close>,
  and \<open>s0\<close> when there is none. \<open>shapes_ok d tbl n\<close>: every mask the table names has
  \<open>n\<close> voxels. \<open>save_path\<close>: the path \<^verbatim>\<open>Execute\<close> writes to. \<open>stems_known\<close>: the
  completeness check of line 167.
\<close>

definition fg :: "volume folder \<Rightarrow> nat \<Rightarrow> string \<Rightarrow> bool" where
  "fg d v organ_name = (case map_of d (organ_name @ ''.nii'') of None \<Rightarrow> False | Some organ \<Rightarrow> organ ! v \<noteq> 0)"

definition label_at :: "volume folder \<Rightarrow> (string \<times> nat) list \<Rightarrow> nat \<Rightarrow> nat \<Rightarrow> nat" where
  "label_at d tbl v s0 = foldl (\<lambda>s (organ_name, ID). if fg d v organ_name then ID else s) s0 tbl"

definition shapes_ok :: "volume folder \<Rightarrow> (string \<times> nat) list \<Rightarrow> nat \<Rightarrow> bool" where
  "shapes_ok d tbl n = list_all (\<lambda>(organ_name, ID). case map_of d (organ_name @ ''.nii'') of None \<Rightarrow> True | Some organ \<Rightarrow> length organ = n) tbl"

definition save_path :: "string option \<Rightarrow> string option \<Rightarrow> string option" where
  "save_path self_fpath_save fpath_save = (case fpath_save of None \<Rightarrow> self_fpath_save | Some p \<Rightarrow> Some p)"

definition stems_known :: "(string \<times> nat) list \<Rightarrow> volume folder \<Rightarrow> bool" where
  "stems_known tbl d = list_all (\<lambda>fname. stem fname \<in> set (map fst tbl)) (listdir d)"



text \<open>
  Auxiliary notions. \<open>union_mask seg IDs\<close>: foreground (255) at the voxels whose label is
  one of \<open>IDs\<close>, 0 elsewhere. \<open>organ_mask seg ID\<close>: the array the loop body computes for
  \<open>ID\<close>. \<open>occurs ID seg\<close>: the test \<^verbatim>\<open>ID in seg\<close>. \<open>written folder seg names\<close>: the
  files the loop writes, in order.
\<close>

definition union_mask :: "volume \<Rightarrow> nat list \<Rightarrow> volume" where
  "union_mask seg IDs = map (\<lambda>v. if unat v \<in> set IDs then 255 else 0) seg"

definition organ_mask :: "volume \<Rightarrow> nat \<Rightarrow> volume" where
  "organ_mask seg ID =
     (case map_of MultipleOrgans ID of
        None \<Rightarrow> extract_label seg ID
      | Some IDs \<Rightarrow> add_organs seg IDs (replicate (length seg) 0))"

definition occurs :: "nat \<Rightarrow> volume \<Rightarrow> bool" where
  "occurs ID seg = (ID \<in> set (map unat seg))"

definition written :: "string \<Rightarrow> volume \<Rightarrow> (nat \<times> string) list \<Rightarrow> volume event list" where
  "written folder seg names =
     map (\<lambda>(ID, name). WriteImage (path_join folder (organ_fname ID name)) (organ_mask seg ID))
       (filter (\<lambda>(ID, name). occurs ID seg) names)"

text \<open>
  \<open>flip_axis ax\<close> reverses an array along the one axis \<open>ax\<close> (0 the layers, 1 the rows of
  a layer, 2 the voxels of a row). \<open>bytes3\<close>: every voxel lies between 0 and 255.
  \<open>layer_method\<close>: the method \<^verbatim>\<open>OrganConvert\<close> calls for the layer of a file.
\<close>

definition flip_axis :: "nat \<Rightarrow> 'a volume3 \<Rightarrow> 'a volume3" where
  "flip_axis ax a = (if ax = 0 then rev a else if ax = 1 then map rev a else map (map rev) a)"

definition bytes3 :: "int volume3 \<Rightarrow> bool" where
  "bytes3 a = list_all (list_all (list_all (\<lambda>v. 0 \<le> v \<and> v \<le> 255))) a"

definition layer_method ::
  "(string \<Rightarrow> error + int) \<Rightarrow> (string \<Rightarrow> error + int) option \<Rightarrow> string \<Rightarrow> error + int" where
  "layer_method py_int GetImageLayerMethod =
     (case GetImageLayerMethod of None \<Rightarrow> GetImageLayerByName py_int | Some m \<Rightarrow> m)"

text \<open>
  \<open>kept\<close>: the files left by the stop list. \<open>voxels_of\<close> and \<open>overlap_of\<close>: the voxel
  count of a mask and of the intersection of two. \<open>percent\<close>: the intersection divided by a
  voxel count, times 100, rounded to one decimal. \<open>reported\<close>: the condition under which a
  pair is printed; \<open>report_of\<close>: the line printed for it; \<open>reads_of\<close>: the two reads made
  for it. \<open>same_shape\<close>: all masks have the same number of voxels. \<open>disjoint_masks\<close>: no
  voxel is foreground in two masks.
\<close>

definition kept :: "volume folder \<Rightarrow> string list option \<Rightarrow> volume folder" where
  "kept folder_organs stop_organ_list =
     filter (\<lambda>organ. fst organ \<notin> set (case stop_organ_list of None \<Rightarrow> [] | Some l \<Rightarrow> l))
       folder_organs"

definition voxels_of :: "volume folder \<Rightarrow> nat \<Rightarrow> nat" where
  "voxels_of organs i = np_sum (astype_bool (snd (organs ! i)))"

definition overlap_of :: "volume folder \<Rightarrow> nat \<Rightarrow> nat \<Rightarrow> nat" where
  "overlap_of organs i j =
     np_sum (map2 (\<and>) (astype_bool (snd (organs ! i))) (astype_bool (snd (organs ! j))))"

definition percent :: "'f float_ops \<Rightarrow> nat \<Rightarrow> nat \<Rightarrow> 'f" where
  "percent ops a n = fround ops 1 (fmul100 ops (fdiv ops a n))"

definition reported :: "'f float_ops \<Rightarrow> volume folder \<Rightarrow> nat \<times> nat \<Rightarrow> bool" where
  "reported ops organs p =
     (case p of (i, j) \<Rightarrow>
        overlap_of organs i j \<noteq> 0 \<and>
        (ge1 ops (percent ops (overlap_of organs i j) (voxels_of organs i)) \<or>
         ge1 ops (percent ops (overlap_of organs i j) (voxels_of organs j))))"

definition report_of :: "'f float_ops \<Rightarrow> volume folder \<Rightarrow> nat \<times> nat \<Rightarrow> 'f report" where
  "report_of ops organs p =
     (case p of (i, j) \<Rightarrow>
        \<lparr>r_overlap = overlap_of organs i j,
         r_percent_i = percent ops (overlap_of organs i j) (voxels_of organs i),
         r_percent_j = percent ops (overlap_of organs i j) (voxels_of organs j),
         r_organ_i = stem (fst (organs ! i)), r_n_i = voxels_of organs i,
         r_organ_j = stem (fst (organs ! j)), r_n_j = voxels_of organs j,
         r_ratio = fround ops 2 (fdiv ops (voxels_of organs i) (voxels_of organs j))\<rparr>)"

definition reads_of :: "volume folder \<Rightarrow> nat \<times> nat \<Rightarrow> volume event list" where
  "reads_of organs p = (case p of (i, j) \<Rightarrow> [ReadImage (fst (organs ! i)), ReadImage (fst (organs ! j))])"

definition same_shape :: "volume folder \<Rightarrow> bool" where
  "same_shape organs = list_all (\<lambda>a. list_all (\<lambda>b. length (snd a) = length (snd b)) organs) organs"

definition disjoint_masks :: "volume folder \<Rightarrow> bool" where
  "disjoint_masks organs =
     list_all (\<lambda>p. case p of (i, j) \<Rightarrow>
                 list_all (\<lambda>(x, y). \<not> (x \<noteq> 0 \<and> y \<noteq> 0)) (zip (snd (organs ! i)) (snd (organs ! j))))
       (index_pairs (length organs))"

text \<open>
  An instance of the number operations for the witness: a number is an exact fraction,
  kept as numerator and denominator, and rounding leaves it as it is.
\<close>

definition exact_ops :: "(nat \<times> nat) float_ops" where
  "exact_ops = \<lparr>fdiv = (\<lambda>a b. (a, b)), fmul100 = (\<lambda>x. (100 * fst x, snd x)),
                 fround = (\<lambda>k x. x), ge1 = (\<lambda>x. snd x \<noteq> 0 \<and> snd x \<le> fst x)\<rparr>"

section \<open>The assembler: what a voxel holds\<close>

lemma paint_eq:
  assumes "length organ_bool = length seg"
  shows "paint seg (astype_bool seg) organ_bool ID = map2 (\<lambda>s g. if g then ID else s) seg organ_bool"
  using assms
proof (induction seg arbitrary: organ_bool)
  case Nil
  then show ?case by (simp add: paint_def seg_minus_organ_def astype_bool_def)
next
  case (Cons s seg)
  then obtain g gs where ob: "organ_bool = g # gs" by (cases organ_bool) auto
  with Cons.prems have "length gs = length seg" by simp
  from Cons.IH[OF this] show ?case
    by (simp add: ob paint_def seg_minus_organ_def astype_bool_def)
qed

lemma length_astype_bool [simp]: "length (astype_bool a) = length a"
  by (simp add: astype_bool_def)

lemma nth_astype_bool [simp]: "v < length a \<Longrightarrow> astype_bool a ! v = (a ! v \<noteq> 0)"
  by (simp add: astype_bool_def)

lemma length_paint:
  "length organ_bool = length seg \<Longrightarrow> length (paint seg (astype_bool seg) organ_bool ID) = length seg"
  by (simp add: paint_eq)

lemma paint_all_ok:
  assumes "shapes_ok d tbl (length seg)"
  shows "\<exists>log' seg'. paint_all d tbl seg (astype_bool seg) log = (log', Inr seg') \<and>
           length seg' = length seg \<and> (\<forall>v < length seg. seg' ! v = label_at d tbl v (seg ! v))
           \<and> (\<forall>e \<in> set log'. e \<in> set log \<or> (\<exists>f. e = ReadImage f))"
  using assms
proof (induction tbl arbitrary: seg log)
  case Nil
  then show ?case by (simp add: label_at_def)
next
  case (Cons a tbl)
  obtain organ_name ID where a: "a = (organ_name, ID)" by (cases a)
  show ?case
  proof (cases "map_of d (organ_name @ ''.nii'')")
    case None
    from Cons.prems have "shapes_ok d tbl (length seg)" by (simp add: shapes_ok_def)
    from Cons.IH[OF this, of log] None show ?thesis
      by (simp add: a label_at_def fg_def)
  next
    case (Some organ)
    let ?seg' = "paint seg (astype_bool seg) (astype_bool organ) ID"
    from Cons.prems Some have len: "length organ = length seg"
      by (simp add: shapes_ok_def a)
    then have len': "length ?seg' = length seg"
      by (simp add: length_paint)
    from Cons.prems have "shapes_ok d tbl (length ?seg')" by (simp add: shapes_ok_def len')
    from Cons.IH[OF this, of "log @ [ReadImage (organ_name @ ''.nii'')]"]
    obtain log' seg' where r: "paint_all d tbl ?seg' (astype_bool ?seg') (log @ [ReadImage (organ_name @ ''.nii'')]) = (log', Inr seg')"
      and l: "length seg' = length ?seg'"
      and v: "\<forall>v < length ?seg'. seg' ! v = label_at d tbl v (?seg' ! v)"
      and e: "\<forall>e \<in> set log'. e \<in> set (log @ [ReadImage (organ_name @ ''.nii'')]) \<or> (\<exists>f. e = ReadImage f)"
      by blast
    have step: "\<forall>v < length seg. ?seg' ! v = (if fg d v organ_name then ID else seg ! v)"
      using len Some by (simp add: paint_eq fg_def)
    have "paint_all d (a # tbl) seg (astype_bool seg) log = (log', Inr seg')"
      using r Some len by (simp add: a Let_def)
    moreover have "length seg' = length seg" using l len' by simp
    moreover have "\<forall>v < length seg. seg' ! v = label_at d (a # tbl) v (seg ! v)"
      using v step len' by (simp add: label_at_def a)
    moreover have "\<forall>e \<in> set log'. e \<in> set log \<or> (\<exists>f. e = ReadImage f)"
      using e by auto
    ultimately show ?thesis by blast
  qed
qed

lemma paint_all_error:
  "paint_all d tbl seg seg_bool log = (log', Inl e) \<Longrightarrow> e = ValueError"
  by (induction d tbl seg seg_bool log rule: paint_all.induct)
     (auto simp: Let_def split: option.splits if_splits)

lemma paint_all_shapes:
  "paint_all d tbl seg (astype_bool seg) log = (log', Inr seg') \<Longrightarrow> shapes_ok d tbl (length seg)"
proof (induction tbl arbitrary: seg log)
  case Nil
  then show ?case by (simp add: shapes_ok_def)
next
  case (Cons a tbl)
  obtain organ_name ID where a: "a = (organ_name, ID)" by (cases a)
  show ?case
  proof (cases "map_of d (organ_name @ ''.nii'')")
    case None
    with Cons.prems have "paint_all d tbl seg (astype_bool seg) log = (log', Inr seg')"
      by (simp add: a)
    from Cons.IH[OF this] None show ?thesis by (simp add: shapes_ok_def a)
  next
    case (Some organ)
    let ?seg' = "paint seg (astype_bool seg) (astype_bool organ) ID"
    from Cons.prems Some have len: "length organ = length seg"
      by (simp add: a Let_def split: if_splits)
    with Cons.prems Some have "paint_all d tbl ?seg' (astype_bool ?seg') (log @ [ReadImage (organ_name @ ''.nii'')]) = (log', Inr seg')"
      by (simp add: a Let_def)
    from Cons.IH[OF this] have "shapes_ok d tbl (length seg)"
      using len by (simp add: length_paint)
    with Some len show ?thesis by (simp add: shapes_ok_def a)
  qed
qed

lemma filter_miss_empty:
  "(filter (\<lambda>fname. stem fname \<notin> fst ` set tbl) (listdir d) = []) = stems_known tbl d"
  by (auto simp: stems_known_def list_all_iff filter_empty_conv)

lemma label_at_zero_vol: "v < n \<Longrightarrow> label_at d tbl v (replicate n 0 ! v) = label_at d tbl v 0"
  by simp

lemma Assemble_Execute_ok:
  assumes "save_path sp fp = Some path" and "stems_known tbl d" and "img = Some ref"
    and "shapes_ok d tbl (length ref)"
  shows "\<exists>log. Assemble_Execute_with tbl img d sp fp =
           (log @ [WriteImage path (map (\<lambda>v. of_nat (label_at d tbl v 0)) [0..<length ref])],
            Inr (map (\<lambda>v. of_nat (label_at d tbl v 0)) [0..<length ref]))
          \<and> (\<forall>e \<in> set log. \<exists>f. e = ReadImage f)"
proof -
  let ?seg = "replicate (length ref) (0::nat)"
  from assms(4) have "shapes_ok d tbl (length ?seg)" by simp
  from paint_all_ok[OF this, of "[]"]
  obtain log' seg' where r: "paint_all d tbl ?seg (astype_bool ?seg) [] = (log', Inr seg')"
    and l: "length seg' = length ref"
    and v: "\<forall>v < length ref. seg' ! v = label_at d tbl v 0"
    and e: "\<forall>e \<in> set log'. \<exists>f. e = ReadImage f"
    by auto
  have "map (of_nat :: nat \<Rightarrow> u8) seg' = map (\<lambda>v. of_nat (label_at d tbl v 0)) [0..<length ref]"
    using l v by (intro nth_equalityI) simp_all
  then have "Assemble_Execute_with tbl img d sp fp =
           (log' @ [WriteImage path (map (\<lambda>v. of_nat (label_at d tbl v 0)) [0..<length ref])],
            Inr (map (\<lambda>v. of_nat (label_at d tbl v 0)) [0..<length ref]))"
    using assms(1,2,3) r
    by (simp add: Assemble_Execute_with_def save_path_def[symmetric] filter_miss_empty Let_def)
  with e show ?thesis by blast
qed

lemma Assemble_Execute_InrD:
  assumes "Assemble_Execute_with tbl img d sp fp = (log, Inr out)"
  shows "\<exists>path ref. save_path sp fp = Some path \<and> stems_known tbl d \<and> img = Some ref \<and>
           shapes_ok d tbl (length ref)"
proof -
  from assms obtain path where p: "save_path sp fp = Some path"
    by (cases "save_path sp fp") (auto simp: Assemble_Execute_with_def save_path_def[symmetric])
  from assms p have s: "stems_known tbl d"
    by (auto simp: Assemble_Execute_with_def save_path_def[symmetric] filter_miss_empty Let_def split: if_splits)
  from assms p s obtain ref where i: "img = Some ref"
    by (cases img) (auto simp: Assemble_Execute_with_def save_path_def[symmetric] filter_miss_empty Let_def)
  let ?seg = "replicate (length ref) (0::nat)"
  from assms p s i obtain log' seg' where "paint_all d tbl ?seg (astype_bool ?seg) [] = (log', Inr seg')"
    by (auto simp: Assemble_Execute_with_def save_path_def[symmetric] filter_miss_empty Let_def
             split: prod.splits sum.splits)
  from paint_all_shapes[OF this] have "shapes_ok d tbl (length ref)" by simp
  with p s i show ?thesis by blast
qed

lemma Assemble_Execute_out:
  assumes "Assemble_Execute_with tbl img d sp fp = (log, Inr out)"
  shows "out = map (\<lambda>v. of_nat (label_at d tbl v 0)) [0..<length out]"
proof -
  from Assemble_Execute_InrD[OF assms] obtain path ref where
    h: "save_path sp fp = Some path" "stems_known tbl d" "img = Some ref" "shapes_ok d tbl (length ref)"
    by blast
  from Assemble_Execute_ok[OF h] assms
  have "out = map (\<lambda>v. of_nat (label_at d tbl v 0)) [0..<length ref]" by auto
  moreover from this have "length out = length ref" by simp
  ultimately show ?thesis by simp
qed

lemma label_at_append: "label_at d (xs @ ys) v s = label_at d ys v (label_at d xs v s)"
  by (simp add: label_at_def)

lemma label_at_Cons:
  "label_at d ((organ_name, ID) # xs) v s = label_at d xs v (if fg d v organ_name then ID else s)"
  by (simp add: label_at_def)

lemma label_at_Nil: "label_at d [] v s = s"
  by (simp add: label_at_def)

lemma label_at_background:
  "\<forall>C \<in> fst ` set post. \<not> fg d v C \<Longrightarrow> label_at d post v s = s"
  by (induction post arbitrary: s) (auto simp: label_at_Cons label_at_Nil)

text \<open>
  C1 (as amended). In the labeled volume that \<^verbatim>\<open>Execute\<close> returns, a voxel at which the
  masks of A and B are both foreground, A before B in the key order of the table and both
  present as files, holds the ID of B, provided that no organ after B in the key order has
  a file whose mask is foreground at that voxel.
\<close>

theorem later_wins:
  assumes "Assemble_Execute_with tbl img d sp fp = (log, Inr out)"
    and "tbl = pre @ (A, idA) # mid @ (B, idB) # post"
    and "v < length out"
    and "fg d v A" and "fg d v B"
    and "\<forall>C \<in> fst ` set post. \<not> fg d v C"
  shows "out ! v = of_nat idB"
proof -
  have "out ! v = map (\<lambda>v. of_nat (label_at d tbl v 0)) [0..<length out] ! v"
    using Assemble_Execute_out[OF assms(1)] by simp
  also have "\<dots> = of_nat (label_at d tbl v 0)"
    using assms(3) by simp
  also have "label_at d tbl v 0 = idB"
    using assms(5,6) unfolding assms(2)
    by (simp add: label_at_append label_at_Cons label_at_background)
  finally show ?thesis .
qed

text \<open>
  The example of the specification, table [A:1, B:2], mask A foreground at the voxels 0, 1, 2
  and mask B at 2, 3: the volume is 1, 1, 2, 2.
\<close>

theorem later_wins_witness:
  "Assemble_Execute_with [(''A'', 1), (''B'', 2)] (Some [0, 0, 0, 0])
     [(''A.nii'', [255, 255, 255, 0]), (''B.nii'', [0, 0, 255, 255])] None (Some ''seg.nii'')
   = ([ReadImage ''A.nii'', ReadImage ''B.nii'', WriteImage ''seg.nii'' [1, 1, 2, 2]],
      Inr [1, 1, 2, 2])
   \<and> [1, 1, 2, 2 :: u8] ! 2 = of_nat 2"
proof -
  let ?d = "[(''A.nii'', [255, 255, 255, 0 :: u8]), (''B.nii'', [0, 0, 255, 255])]"
  have run: "Assemble_Execute_with [(''A'', 1), (''B'', 2)] (Some [0, 0, 0, 0]) ?d None (Some ''seg.nii'')
     = ([ReadImage ''A.nii'', ReadImage ''B.nii'', WriteImage ''seg.nii'' [1, 1, 2, 2]], Inr [1, 1, 2, 2])"
    by (simp add: Assemble_Execute_with_def listdir_def stem_def astype_bool_def paint_def
          seg_minus_organ_def Let_def)
  have "[1, 1, 2, 2 :: u8] ! 2 = of_nat 2"
    by (rule later_wins[OF run, of "[]" "''A''" 1 "[]" "''B''" 2 "[]"]) (simp_all add: fg_def)
  with run show ?thesis by simp
qed

text \<open>
  C1 as stated fails when a third mask, later in the key order, covers the voxel: with Body,
  Skin and Muscle all foreground at a voxel, the pair Body, Skin finds 13, the ID of Muscle,
  and not 11, the ID of Skin.
\<close>

theorem later_wins_counterexample:
  "snd (Assemble_Execute (Some [0])
     [(''Body.nii'', [255]), (''Skin.nii'', [255]), (''Muscle.nii'', [255])] None (Some ''seg.nii''))
   = Inr [13]
   \<and> map_of OrganID ''Skin'' = Some 11
   \<and> fg [(''Body.nii'', [255]), (''Skin.nii'', [255]), (''Muscle.nii'', [255])] 0 ''Body''
   \<and> fg [(''Body.nii'', [255]), (''Skin.nii'', [255]), (''Muscle.nii'', [255])] 0 ''Skin''
   \<and> ([13 :: u8] ! 0 \<noteq> 11)"
  by (simp add: Assemble_Execute_def Assemble_Execute_with_def OrganID_def listdir_def stem_def
        astype_bool_def paint_def seg_minus_organ_def fg_def Let_def)

section \<open>The assembler on disjoint masks\<close>










section \<open>The completeness check of the assembler\<close>

text \<open>
  C5. When a save path is given and some file of the directory has a stem that is not a key
  of \<^verbatim>\<open>OrganID\<close>, \<^verbatim>\<open>Execute\<close> raises the assertion error of line 169 with an empty log:
  no mask has been read and no volume is written. When every stem is a key, that error is
  not raised.
\<close>

theorem completeness_prevalidation:
  "(save_path sp fp = Some path \<and> (\<exists>fname \<in> set (listdir d). stem fname \<notin> fst ` set OrganID)
      \<longrightarrow> Assemble_Execute img d sp fp = ([], Inl (AssertionError ''Missed organ in OrganID.'')))
   \<and> ((\<forall>fname \<in> set (listdir d). stem fname \<in> fst ` set OrganID)
      \<longrightarrow> snd (Assemble_Execute img d sp fp) \<noteq> Inl (AssertionError ''Missed organ in OrganID.''))"
proof (intro conjI impI)
  assume a: "save_path sp fp = Some path \<and> (\<exists>fname \<in> set (listdir d). stem fname \<notin> fst ` set OrganID)"
  then have "\<not> stems_known OrganID d"
    by (auto simp: stems_known_def list_all_iff)
  with a show "Assemble_Execute img d sp fp = ([], Inl (AssertionError ''Missed organ in OrganID.''))"
    by (simp add: Assemble_Execute_def Assemble_Execute_with_def save_path_def[symmetric]
          filter_miss_empty)
next
  assume "\<forall>fname \<in> set (listdir d). stem fname \<in> fst ` set OrganID"
  then have k: "stems_known OrganID d"
    by (auto simp: stems_known_def list_all_iff)
  show "snd (Assemble_Execute img d sp fp) \<noteq> Inl (AssertionError ''Missed organ in OrganID.'')"
  proof (cases "save_path sp fp")
    case None
    then show ?thesis
      by (simp add: Assemble_Execute_def Assemble_Execute_with_def save_path_def[symmetric])
  next
    case (Some path)
    show ?thesis
    proof (cases img)
      case None
      with Some k show ?thesis
        by (simp add: Assemble_Execute_def Assemble_Execute_with_def save_path_def[symmetric]
              filter_miss_empty)
    next
      case (Some ref)
      obtain log r where p: "paint_all d OrganID (replicate (length ref) 0)
          (astype_bool (replicate (length ref) (0::nat))) [] = (log, r)"
        by (cases "paint_all d OrganID (replicate (length ref) 0)
          (astype_bool (replicate (length ref) (0::nat))) []") 
      show ?thesis
      proof (cases r)
        case (Inl e)
        with p have "e = ValueError" by (auto dest: paint_all_error)
        with Inl p Some k \<open>save_path sp fp = Some path\<close> show ?thesis
          by (simp add: Assemble_Execute_def Assemble_Execute_with_def save_path_def[symmetric]
              filter_miss_empty)
      next
        case (Inr seg')
        with p Some k \<open>save_path sp fp = Some path\<close> show ?thesis
          by (simp add: Assemble_Execute_def Assemble_Execute_with_def save_path_def[symmetric]
              filter_miss_empty Let_def)
      qed
    qed
  qed
qed

theorem completeness_prevalidation_witness:
  "Assemble_Execute (Some [0]) [(''Lung.nii'', [255]), (''Tumor.nii'', [255])] None (Some ''seg.nii'')
     = ([], Inl (AssertionError ''Missed organ in OrganID.''))
   \<and> snd (Assemble_Execute (Some [0]) [(''Lung.nii'', [255]), (''Heart.mha'', [255])] None (Some ''seg.nii''))
     \<noteq> Inl (AssertionError ''Missed organ in OrganID.'')"
proof -
  have 1: "save_path None (Some ''seg.nii'') = Some ''seg.nii'' \<and>
        (\<exists>fname \<in> set (listdir [(''Lung.nii'', [255 :: u8]), (''Tumor.nii'', [255])]).
            stem fname \<notin> fst ` set OrganID)"
    by (simp add: save_path_def listdir_def stem_def OrganID_def)
  have 2: "\<forall>fname \<in> set (listdir [(''Lung.nii'', [255 :: u8]), (''Heart.mha'', [255])]).
            stem fname \<in> fst ` set OrganID"
    by (simp add: listdir_def stem_def OrganID_def)
  from completeness_prevalidation[of None "Some ''seg.nii''" "''seg.nii''"
         "[(''Lung.nii'', [255]), (''Tumor.nii'', [255])]" "Some [0]"] 1
       completeness_prevalidation[of None "Some ''seg.nii''" "''seg.nii''"
         "[(''Lung.nii'', [255]), (''Heart.mha'', [255])]" "Some [0]"] 2
  show ?thesis by blast
qed

section \<open>The splitter: what it writes\<close>

lemma extract_label_eq:
  "extract_label seg ID = map (\<lambda>v. if unat v = ID then 255 else 0) seg"
  by (induction seg) (simp_all add: extract_label_def assign_where_def neq_ID_def eq_ID_def)

lemma length_extract_label [simp]: "length (extract_label seg ID) = length seg"
  by (simp add: extract_label_eq)

lemma length_add_organs:
  "length acc = length seg \<Longrightarrow> length (add_organs seg IDs acc) = length seg"
  by (induction IDs arbitrary: acc) (simp_all add: add_organs_def)

lemma add_organs_Cons:
  "add_organs seg (ID # IDs) acc = add_organs seg IDs (map2 (+) acc (extract_label seg ID))"
  by (simp add: add_organs_def)

lemma add_organs_nth:
  assumes "distinct IDs" and "length acc = length seg" and "i < length seg"
  shows "add_organs seg IDs acc ! i = acc ! i + (if unat (seg ! i) \<in> set IDs then 255 else 0)"
  using assms
proof (induction IDs arbitrary: acc)
  case Nil
  then show ?case by (simp add: add_organs_def)
next
  case (Cons ID IDs)
  let ?acc = "map2 (+) acc (extract_label seg ID)"
  have l: "length ?acc = length seg" using Cons.prems by simp
  from Cons.prems have d: "distinct IDs" and n: "ID \<notin> set IDs" by simp_all
  have "add_organs seg (ID # IDs) acc ! i = ?acc ! i + (if unat (seg ! i) \<in> set IDs then 255 else 0)"
    unfolding add_organs_Cons using Cons.IH[OF d l Cons.prems(3)] .
  also have "?acc ! i = acc ! i + (if unat (seg ! i) = ID then 255 else 0)"
    using Cons.prems by (simp add: extract_label_eq)
  finally show ?case using n by auto
qed

lemma add_organs_union:
  assumes "distinct IDs"
  shows "add_organs seg IDs (replicate (length seg) 0) = union_mask seg IDs"
proof (rule nth_equalityI)
  show "length (add_organs seg IDs (replicate (length seg) 0)) = length (union_mask seg IDs)"
    by (simp add: length_add_organs union_mask_def)
next
  fix i assume "i < length (add_organs seg IDs (replicate (length seg) 0))"
  then have i: "i < length seg" by (simp add: length_add_organs)
  then show "add_organs seg IDs (replicate (length seg) 0) ! i = union_mask seg IDs ! i"
    using add_organs_nth[OF assms, of "replicate (length seg) 0" seg i]
    by (simp add: union_mask_def)
qed

lemma MultipleOrgans_distinct:
  "map_of MultipleOrgans ID = Some IDs \<Longrightarrow> distinct IDs \<and> ID \<in> set IDs"
  by (auto simp: MultipleOrgans_def split: if_splits)

lemma MultipleOrgans_keys:
  "(ID \<in> set (map fst MultipleOrgans)) = (map_of MultipleOrgans ID \<noteq> None)"
  by (simp add: map_of_eq_None_iff)

lemma organ_mask_eq:
  "organ_mask seg ID =
     (case map_of MultipleOrgans ID of
        None \<Rightarrow> union_mask seg [ID]
      | Some IDs \<Rightarrow> union_mask seg IDs)"
  by (auto simp: organ_mask_def extract_label_eq union_mask_def add_organs_union
           dest: MultipleOrgans_distinct split: option.splits)

lemma split_all_eq:
  "split_all folder seg names log = (log @ written folder seg names, Inr ())"
proof (induction names arbitrary: log)
  case Nil
  then show ?case by (simp add: written_def)
next
  case (Cons a names)
  obtain ID name where a: "a = (ID, name)" by (cases a)
  show ?case
  proof (cases "occurs ID seg")
    case False
    then show ?thesis using Cons.IH[of log]
      by (simp add: a written_def occurs_def)
  next
    case True
    have m: "(if ID \<in> set (map fst MultipleOrgans) then AssembleMultipleOrgans seg ID
              else Inr (extract_label seg ID)) = Inr (organ_mask seg ID)"
      by (auto simp: MultipleOrgans_keys AssembleMultipleOrgans_def organ_mask_def
               simp del: set_map split: option.splits)
    have "split_all folder seg (a # names) log =
            split_all folder seg names
              (log @ [WriteImage (path_join folder (organ_fname ID name)) (organ_mask seg ID)])"
      using True unfolding a split_all.simps m by (simp add: occurs_def)
    then show ?thesis using True Cons.IH
      by (simp add: a written_def)
  qed
qed

lemma Split_Execute_eq:
  "save_path sfs fs = Some folder \<Longrightarrow>
   Split_Execute fpath_seg seg path_exists sfs fs =
     ((if \<not> path_exists folder then [Makedirs folder] else []) @ [ReadImage fpath_seg]
        @ written folder seg StandardName, Inr ())"
  by (simp add: Split_Execute_def save_path_def[symmetric] split_all_eq)

lemma path_join_inj:
  "take 1 b \<noteq> ''/'' \<Longrightarrow> take 1 b' \<noteq> ''/'' \<Longrightarrow> path_join a b = path_join a b' \<Longrightarrow> b = b'"
  by (auto simp: path_join_def split: if_splits)

lemma StandardName_fnames:
  "map (\<lambda>(ID, name). organ_fname ID name) StandardName =
    [''10_Body.nii'', ''11_Skin.nii'', ''13_Muscle.nii'', ''15_Bladder.nii'', ''18_Brain.nii'',
     ''19_Breast.nii'', ''21_Esophagus.nii'', ''22_Eye.nii'', ''23_Len.nii'', ''24_GallBladder.nii'',
     ''26_Heart.nii'', ''28_Kidney.nii'', ''29_Larynx.nii'', ''32_Liver.nii'', ''33_Lung.nii'',
     ''37_OralCavity.nii'', ''38_Pancreas.nii'', ''42_Pituitary.nii'', ''43_Parotid.nii'',
     ''44_Intestine.nii'',
     ''46_Bone.nii'', ''47_Marrow.nii'', ''63_TMJ.nii'', ''65_SpinalCord.nii'', ''66_Spleen.nii'',
     ''67_Stomach.nii'', ''70_Thyroid.nii'', ''73_Trachea.nii'', ''75_Cochlea.nii'',
     ''76_BrainStem.nii'',
     ''77_TemporalLobe.nii'', ''78_OpticChiasm.nii'', ''79_OpticalNerve.nii'', ''80_Rectum.nii'',
     ''81_Sigmoid.nii'',
     ''82_Duodenum.nii'', ''86_Ovary.nii'']"
  by (simp add: StandardName_def organ_fname_def str_nat.simps digit_char_def)

lemma StandardName_fnames_distinct:
  "distinct (map (\<lambda>(ID, name). organ_fname ID name) StandardName)"
  unfolding StandardName_fnames by simp

lemma StandardName_fnames_relative:
  "\<forall>b \<in> set (map (\<lambda>(ID, name). organ_fname ID name) StandardName). take 1 b \<noteq> ''/''"
  unfolding StandardName_fnames by simp

lemma StandardName_paths_inj:
  "inj_on (\<lambda>(ID, name). path_join folder (organ_fname ID name)) (set StandardName)"
proof (rule inj_onI)
  fix x y assume x: "x \<in> set StandardName" and y: "y \<in> set StandardName"
    and e: "(case x of (ID, name) \<Rightarrow> path_join folder (organ_fname ID name)) =
            (case y of (ID, name) \<Rightarrow> path_join folder (organ_fname ID name))"
  let ?g = "\<lambda>(ID, name). organ_fname ID name"
  have "take 1 (?g x) \<noteq> ''/''" "take 1 (?g y) \<noteq> ''/''"
    using StandardName_fnames_relative x y by (auto simp del: take_Suc_Cons)
  moreover from e have "path_join folder (?g x) = path_join folder (?g y)"
    by (simp add: case_prod_beta)
  ultimately have "?g x = ?g y" by (rule path_join_inj)
  moreover have "inj_on ?g (set StandardName)"
    using StandardName_fnames_distinct by (simp add: distinct_map)
  ultimately show "x = y" using x y by (auto dest: inj_onD)
qed

lemma written_iff:
  assumes "(ID, name) \<in> set StandardName"
  shows "(WriteImage (path_join folder (organ_fname ID name)) m \<in> set (written folder seg StandardName))
           = (occurs ID seg \<and> m = organ_mask seg ID)"
proof
  assume "WriteImage (path_join folder (organ_fname ID name)) m \<in> set (written folder seg StandardName)"
  then obtain ID' name' where in': "(ID', name') \<in> set StandardName" and o: "occurs ID' seg"
    and p: "path_join folder (organ_fname ID name) = path_join folder (organ_fname ID' name')"
    and m: "m = organ_mask seg ID'"
    by (auto simp: written_def)
  from inj_onD[OF StandardName_paths_inj[of folder] _ assms in'] p
  have "(ID, name) = (ID', name')" by simp
  with o m show "occurs ID seg \<and> m = organ_mask seg ID" by simp
next
  assume "occurs ID seg \<and> m = organ_mask seg ID"
  with assms show "WriteImage (path_join folder (organ_fname ID name)) m \<in> set (written folder seg StandardName)"
    by (force simp: written_def)
qed

lemma Split_Execute_writes:
  assumes "save_path sfs fs = Some folder"
  shows "(WriteImage p m \<in> set (fst (Split_Execute fpath_seg seg path_exists sfs fs)))
           = (WriteImage p m \<in> set (written folder seg StandardName))"
  by (auto simp: Split_Execute_eq[OF assms])

lemma sum_single_label:
  "distinct IDs \<Longrightarrow> sum_list (map (\<lambda>k. if x = k then 255 else 0 :: nat) IDs) = (if x \<in> set IDs then 255 else 0)"
  by (induction IDs) auto

lemma union_mask_values: "set (union_mask seg IDs) \<subseteq> {0, 255}"
  by (auto simp: union_mask_def)

lemma organ_mask_values: "set (organ_mask seg ID) \<subseteq> {0, 255}"
  by (simp add: organ_mask_eq union_mask_values split: option.splits)

lemma written_values: "WriteImage p m \<in> set (written folder seg names) \<Longrightarrow> set m \<subseteq> {0, 255}"
  using organ_mask_values by (auto simp: written_def)

text \<open>
  C4. For a labeled volume and an ID that is a key of \<^verbatim>\<open>MultipleOrgans\<close> and occurs in the
  volume, \<^verbatim>\<open>Execute\<close> succeeds and the mask it writes to the file of that ID is the
  voxel-wise union of the single-label extraction masks of the sub-labels listed under the
  ID: foreground where the voxel equals one of them, 0 elsewhere. That union is the sum of
  the extraction masks (8-bit addition, starting from zeros).
\<close>

theorem combined_split_is_union:
  assumes "save_path sfs fs = Some folder"
    and "map_of MultipleOrgans ID = Some IDs"
    and "(ID, name) \<in> set StandardName"
    and "occurs ID seg"
  shows "snd (Split_Execute fpath_seg seg path_exists sfs fs) = Inr ()
     \<and> (WriteImage (path_join folder (organ_fname ID name)) m
           \<in> set (fst (Split_Execute fpath_seg seg path_exists sfs fs)))
         = (m = map (\<lambda>v. if unat v \<in> set IDs then 255 else 0) seg)
     \<and> map (\<lambda>v. if unat v \<in> set IDs then 255 else 0 :: u8) seg
         = foldl (\<lambda>acc k. map2 (+) acc (map (\<lambda>v. if unat v = k then 255 else 0) seg))
             (replicate (length seg) 0) IDs"
proof -
  have d: "distinct IDs" using MultipleOrgans_distinct[OF assms(2)] by simp
  have 1: "snd (Split_Execute fpath_seg seg path_exists sfs fs) = Inr ()"
    by (simp add: Split_Execute_eq[OF assms(1)])
  have 2: "(WriteImage (path_join folder (organ_fname ID name)) m
           \<in> set (fst (Split_Execute fpath_seg seg path_exists sfs fs)))
         = (m = map (\<lambda>v. if unat v \<in> set IDs then 255 else 0) seg)"
    unfolding Split_Execute_writes[OF assms(1)] written_iff[OF assms(3)]
    using assms(2,4) by (simp add: organ_mask_eq union_mask_def)
  have "union_mask seg IDs = add_organs seg IDs (replicate (length seg) 0)"
    by (simp add: add_organs_union[OF d])
  then have 3: "map (\<lambda>v. if unat v \<in> set IDs then 255 else 0 :: u8) seg
         = foldl (\<lambda>acc k. map2 (+) acc (map (\<lambda>v. if unat v = k then 255 else 0) seg))
             (replicate (length seg) 0) IDs"
    by (simp add: union_mask_def add_organs_def extract_label_eq)
  from 1 2 3 show ?thesis by blast
qed

theorem combined_split_is_union_witness:
  "snd (Split_Execute ''seg.nii'' [46, 0, 47, 33] (\<lambda>p. True) None (Some ''out'')) = Inr ()
   \<and> (WriteImage (path_join ''out'' (organ_fname 46 ''Bone'')) [255, 0, 255, 0]
        \<in> set (fst (Split_Execute ''seg.nii'' [46, 0, 47, 33] (\<lambda>p. True) None (Some ''out''))))
   \<and> [255, 0, 255, 0 :: u8]
       = foldl (\<lambda>acc k. map2 (+) acc (map (\<lambda>v. if unat v = k then 255 else 0) [46, 0, 47, 33 :: u8]))
           (replicate (length [46, 0, 47, 33 :: u8]) 0) [46, 47]"
proof -
  have h: "save_path None (Some ''out'') = Some ''out''"
    "map_of MultipleOrgans 46 = Some [46, 47]"
    "(46, ''Bone'') \<in> set StandardName"
    "occurs 46 [46, 0, 47, 33]"
    by (simp_all add: save_path_def MultipleOrgans_def StandardName_def occurs_def)
  from combined_split_is_union[OF h, of "''seg.nii''" "\<lambda>p. True" "[255, 0, 255, 0]"]
  show ?thesis by simp
qed

text \<open>
  C6. For a label ID of \<^verbatim>\<open>StandardName\<close>, \<^verbatim>\<open>Execute\<close> writes the file of that ID if and
  only if some voxel of the labeled volume equals the ID. In particular no file is written
  for a key of \<^verbatim>\<open>MultipleOrgans\<close> whose sub-labels are all absent from the volume.
\<close>

theorem file_iff_label_occurs:
  assumes "save_path sfs fs = Some folder" and "(ID, name) \<in> set StandardName"
  shows "((\<exists>m. WriteImage (path_join folder (organ_fname ID name)) m
              \<in> set (fst (Split_Execute fpath_seg seg path_exists sfs fs)))
          = (\<exists>v \<in> set seg. unat v = ID))
     \<and> (\<forall>IDs. map_of MultipleOrgans ID = Some IDs \<and> (\<forall>k \<in> set IDs. \<forall>v \<in> set seg. unat v \<noteq> k)
           \<longrightarrow> \<not> (\<exists>m. WriteImage (path_join folder (organ_fname ID name)) m
              \<in> set (fst (Split_Execute fpath_seg seg path_exists sfs fs))))"
proof -
  have o: "occurs ID seg = (\<exists>v \<in> set seg. unat v = ID)"
    by (auto simp: occurs_def)
  have 1: "(\<exists>m. WriteImage (path_join folder (organ_fname ID name)) m
              \<in> set (fst (Split_Execute fpath_seg seg path_exists sfs fs)))
          = (\<exists>v \<in> set seg. unat v = ID)"
    unfolding Split_Execute_writes[OF assms(1)] written_iff[OF assms(2)] o by simp
  have 2: "\<not> (\<exists>m. WriteImage (path_join folder (organ_fname ID name)) m
              \<in> set (fst (Split_Execute fpath_seg seg path_exists sfs fs)))"
    if "map_of MultipleOrgans ID = Some IDs" and "\<forall>k \<in> set IDs. \<forall>v \<in> set seg. unat v \<noteq> k" for IDs
  proof -
    from MultipleOrgans_distinct[OF that(1)] have "ID \<in> set IDs" by simp
    with that(2) have "\<not> (\<exists>v \<in> set seg. unat v = ID)" by blast
    with 1 show ?thesis by simp
  qed
  from 1 2 show ?thesis by blast
qed

theorem file_iff_label_occurs_witness:
  "(\<exists>m. WriteImage (path_join ''out'' (organ_fname 33 ''Lung'')) m
        \<in> set (fst (Split_Execute ''seg.nii'' [33, 0] (\<lambda>p. True) None (Some ''out''))))
   \<and> \<not> (\<exists>m. WriteImage (path_join ''out'' (organ_fname 46 ''Bone'')) m
        \<in> set (fst (Split_Execute ''seg.nii'' [33, 0] (\<lambda>p. True) None (Some ''out''))))"
proof -
  have p: "save_path None (Some ''out'') = Some ''out''"
    by (simp add: save_path_def)
  have l: "(33, ''Lung'') \<in> set StandardName" and b: "(46, ''Bone'') \<in> set StandardName"
    by (simp_all add: StandardName_def)
  have m: "map_of MultipleOrgans 46 = Some [46, 47] \<and>
           (\<forall>k \<in> set [46, 47]. \<forall>v \<in> set [33, 0 :: u8]. unat v \<noteq> k)"
    by (simp add: MultipleOrgans_def)
  have o: "\<exists>v \<in> set [33, 0 :: u8]. unat v = 33" by simp
  from file_iff_label_occurs[OF p l, of "''seg.nii''" "[33, 0]" "\<lambda>p. True"] o
       file_iff_label_occurs[OF p b, of "''seg.nii''" "[33, 0]" "\<lambda>p. True"] m
  show ?thesis by blast
qed

text \<open>
  C10. A file for a key of \<^verbatim>\<open>MultipleOrgans\<close> is written only when the key itself occurs
  in the volume; every mask \<^verbatim>\<open>Execute\<close> writes has its voxels in 0, 255; and at any voxel
  the sub-label masks of a key add up to at most 255, as numbers, so the 8-bit sum does
  not wrap. The witness is a volume with label 47 and without label 46: the only file
  written is that of 47.
\<close>

theorem combined_gated_and_binary:
  assumes "save_path sfs fs = Some folder"
  shows "(\<forall>ID name m. (ID, name) \<in> set StandardName \<and> ID \<in> fst ` set MultipleOrgans
            \<and> WriteImage (path_join folder (organ_fname ID name)) m
                 \<in> set (fst (Split_Execute fpath_seg seg path_exists sfs fs))
            \<longrightarrow> (\<exists>v \<in> set seg. unat v = ID))
     \<and> (\<forall>p m. WriteImage p m \<in> set (fst (Split_Execute fpath_seg seg path_exists sfs fs))
            \<longrightarrow> set m \<subseteq> {0, 255})
     \<and> (\<forall>ID IDs v. map_of MultipleOrgans ID = Some IDs
            \<longrightarrow> sum_list (map (\<lambda>k. if unat (v :: u8) = k then 255 else 0 :: nat) IDs) \<le> 255)"
proof (intro conjI allI impI)
  fix ID name m
  assume a: "(ID, name) \<in> set StandardName \<and> ID \<in> fst ` set MultipleOrgans
            \<and> WriteImage (path_join folder (organ_fname ID name)) m
                 \<in> set (fst (Split_Execute fpath_seg seg path_exists sfs fs))"
  then have "occurs ID seg"
    using written_iff[of ID name folder m seg] by (simp add: Split_Execute_writes[OF assms])
  then show "\<exists>v \<in> set seg. unat v = ID" by (auto simp: occurs_def)
next
  fix p m
  assume "WriteImage p m \<in> set (fst (Split_Execute fpath_seg seg path_exists sfs fs))"
  then have "WriteImage p m \<in> set (written folder seg StandardName)"
    by (simp add: Split_Execute_writes[OF assms])
  then show "set m \<subseteq> {0, 255}" by (rule written_values)
next
  fix ID IDs and v :: u8
  assume "map_of MultipleOrgans ID = Some IDs"
  then have "distinct IDs" using MultipleOrgans_distinct by blast
  then show "sum_list (map (\<lambda>k. if unat v = k then 255 else 0 :: nat) IDs) \<le> 255"
    by (simp add: sum_single_label)
qed

theorem combined_gated_and_binary_witness:
  "Split_Execute ''seg.nii'' [47, 0] (\<lambda>p. True) None (Some ''out'')
     = ([ReadImage ''seg.nii'', WriteImage ''out/47_Marrow.nii'' [255, 0]], Inr ())
   \<and> set [255, 0 :: u8] \<subseteq> {0, 255}
   \<and> sum_list (map (\<lambda>k. if unat (47 :: u8) = k then 255 else 0 :: nat) [46, 47]) \<le> 255"
proof -
  have p: "save_path None (Some ''out'') = Some ''out''"
    by (simp add: save_path_def)
  have run: "Split_Execute ''seg.nii'' [47, 0] (\<lambda>p. True) None (Some ''out'')
     = ([ReadImage ''seg.nii'', WriteImage ''out/47_Marrow.nii'' [255, 0]], Inr ())"
    by (simp add: Split_Execute_def StandardName_def MultipleOrgans_def extract_label_def
          assign_where_def neq_ID_def eq_ID_def path_join_def organ_fname_def str_nat.simps
          digit_char_def Let_def)
  have w: "WriteImage ''out/47_Marrow.nii'' [255, 0]
             \<in> set (fst (Split_Execute ''seg.nii'' [47, 0] (\<lambda>p. True) None (Some ''out'')))"
    by (simp add: run)
  have k: "map_of MultipleOrgans 46 = Some [46, 47]"
    by (simp add: MultipleOrgans_def)
  from combined_gated_and_binary[OF p, of "''seg.nii''" "[47, 0]" "\<lambda>p. True"] w k run
  show ?thesis by blast
qed

section \<open>Assembling, then splitting\<close>











section \<open>The slice importer\<close>

lemma np_flip_axes: "np_flip a = flip_axis 0 (flip_axis 1 (flip_axis 2 a))"
  by (simp add: np_flip_def flip_axis_def)

lemma map3_np_flip: "map3 f (np_flip a) = np_flip (map3 f a)"
  by (simp add: map3_def np_flip_def rev_map)

lemma bytes3_zeros_like: "bytes3 (zeros_like a)"
  by (simp add: bytes3_def zeros_like_def map3_def list_all_iff)

lemma uint_u8_byte: "0 \<le> uint (x :: u8) \<and> uint x \<le> 255"
proof -
  have "uint x < 2 ^ LENGTH(8)" by (rule uint_lt2p)
  then show ?thesis by simp
qed

lemma setitem_bytes3:
  assumes "bytes3 seg" and "setitem seg z (map (map uint) (s :: u8 slice)) = Inr seg'"
  shows "bytes3 seg'"
proof -
  let ?s = "map (map uint) s"
  have s: "list_all (list_all (\<lambda>v. 0 \<le> v \<and> v \<le> 255)) ?s"
    using uint_u8_byte by (simp add: list_all_iff)
  from assms(2) obtain k where "seg' = seg[k := ?s]"
    by (auto simp: setitem_def Let_def split: if_splits)
  moreover have "set (seg[k := ?s]) \<subseteq> insert ?s (set seg)"
    by (rule set_update_subset_insert)
  ultimately have mem: "layer = ?s \<or> layer \<in> set seg" if "layer \<in> set seg'" for layer
    using that by blast
  have old: "list_all (list_all (\<lambda>v. 0 \<le> v \<and> v \<le> 255)) layer" if "layer \<in> set seg" for layer
    using assms(1) that by (simp add: bytes3_def list_all_iff)
  have "list_all (list_all (\<lambda>v. 0 \<le> v \<and> v \<le> 255)) layer" if "layer \<in> set seg'" for layer
  proof -
    from mem[OF that] show ?thesis
    proof
      assume "layer = ?s" with s show ?thesis by simp
    next
      assume "layer \<in> set seg" then show ?thesis by (rule old)
    qed
  qed
  then show ?thesis
    unfolding bytes3_def list_all_iff[of _ seg'] by blast
qed

lemma place_slices_bytes3:
  "bytes3 seg \<Longrightarrow> place_slices G files seg log = (log', seg', r) \<Longrightarrow> bytes3 seg'"
proof (induction G files seg log rule: place_slices.induct)
  case (1 G seg log)
  then show ?case by simp
next
  case (2 G fname kind seg_slice rest seg log)
  show ?case
  proof (cases kind)
    case None
    with 2 show ?thesis by simp
  next
    case (Some ext)
    show ?thesis
    proof (cases "ext = ''jpg''")
      case False
      with 2 Some show ?thesis by simp
    next
      case True
      show ?thesis
      proof (cases "G fname")
        case (Inl e)
        with 2 Some True show ?thesis by (simp add: Let_def)
      next
        case (Inr z)
        show ?thesis
        proof (cases "setitem seg z (map (map uint) seg_slice)")
          case (Inl e)
          with 2 Some True Inr show ?thesis by (simp add: Let_def)
        next
          case inr: (Inr seg1)
          from setitem_bytes3[OF "2.prems"(1) inr] have b: "bytes3 seg1" .
          from "2.prems"(2) Some True Inr inr
          have "place_slices G rest seg1 (log @ [Imread fname]) = (log', seg', r)"
            by (simp add: Let_def)
          from "2.IH"[OF Some _ refl Inr inr b this] True show ?thesis by simp
        qed
      qed
    qed
  qed
qed

lemma binarize_bytes3:
  assumes "bytes3 seg"
  shows "binarize threshold seg = map3 (\<lambda>v. if v > threshold then 255 else 0) seg"
proof -
  have "(if (if v > threshold then 255 else v) \<le> threshold then 0
          else (if v > threshold then 255 else v)) = (if v > threshold then 255 else 0)"
    if "0 \<le> v \<and> v \<le> 255" for v :: int
    using that by auto
  then show ?thesis
    using assms
    by (auto simp: binarize_def map3_def bytes3_def list_all_iff Let_def)
qed

lemma OrganConvert_InrD:
  assumes "OrganConvert py_int img path_exists folder_jpg fpath_save G threshold = (log, Inr out)"
  shows "\<exists>ref log0 seg. img = Some ref \<and>
           place_slices (layer_method py_int G) folder_jpg (zeros_like ref) [] = (log0, seg, None) \<and>
           out = map3 word_of_int (np_flip (binarize threshold seg))"
proof -
  from assms obtain ref where r: "img = Some ref"
    by (cases img) (auto simp: OrganConvert_def Let_def)
  obtain log0 seg e where p:
    "place_slices (layer_method py_int G) folder_jpg (zeros_like ref) [] = (log0, seg, e)"
    by (cases "place_slices (layer_method py_int G) folder_jpg (zeros_like ref) []") auto
  from assms r p have e: "e = None"
    by (cases e) (auto simp: OrganConvert_def layer_method_def[symmetric] Let_def)
  from assms r p e have "out = map3 word_of_int (np_flip (binarize threshold seg))"
    by (auto simp: OrganConvert_def layer_method_def[symmetric] Let_def)
  with r p e show ?thesis by blast
qed

text \<open>
  C9 (as amended). When \<^verbatim>\<open>OrganConvert\<close> returns a volume, then, with \<open>seg\<close> the array
  after all slices are placed, every voxel of \<open>seg\<close> greater than the threshold has become
  255 and every other voxel 0, and the array has then been reversed along all three of its
  axes.
\<close>

theorem binarize_and_flip:
  assumes "OrganConvert py_int img path_exists folder_jpg fpath_save G threshold = (log, Inr out)"
  shows "\<exists>ref log0 seg. img = Some ref \<and>
           place_slices (layer_method py_int G) folder_jpg (zeros_like ref) [] = (log0, seg, None) \<and>
           out = flip_axis 0 (flip_axis 1 (flip_axis 2
                   (map3 (\<lambda>v. if v > threshold then 255 else 0) seg)))"
proof -
  from OrganConvert_InrD[OF assms] obtain ref log0 seg where
    r: "img = Some ref"
    and p: "place_slices (layer_method py_int G) folder_jpg (zeros_like ref) [] = (log0, seg, None)"
    and o: "out = map3 word_of_int (np_flip (binarize threshold seg))"
    by blast
  have "bytes3 seg"
    by (rule place_slices_bytes3[OF bytes3_zeros_like p])
  then have "binarize threshold seg = map3 (\<lambda>v. if v > threshold then 255 else 0) seg"
    by (rule binarize_bytes3)
  with o have "out = np_flip (map3 word_of_int (map3 (\<lambda>v. if v > threshold then 255 else 0) seg))"
    by (simp add: map3_np_flip)
  also have "map3 (word_of_int :: int \<Rightarrow> u8) (map3 (\<lambda>v. if v > threshold then 255 else 0) seg)
             = map3 (\<lambda>v. if v > threshold then 255 else 0) seg"
    by (simp add: map3_def if_distrib[of word_of_int] cong: if_cong)
  finally have "out = flip_axis 0 (flip_axis 1 (flip_axis 2
                   (map3 (\<lambda>v. if v > threshold then 255 else 0) seg)))"
    by (simp add: np_flip_axes)
  with r p show ?thesis by blast
qed

theorem binarize_and_flip_witness:
  "OrganConvert (\<lambda>s. Inl ValueError) (Some [[[0, 0], [0, 0]], [[0, 0], [0, 0]]]) (\<lambda>p. True)
      [(''s0000.jpg'', Some ''jpg'', [[200, 0], [128, 0]])] ''out/Liver.nii''
      (Some (\<lambda>fname. Inr 0)) 128
     = ([Imread ''s0000.jpg'', WriteImage ''out/Liver.nii'' [[[0, 0], [0, 0]], [[0, 0], [0, 255]]]],
        Inr [[[0, 0], [0, 0]], [[0, 0], [0, 255]]])
   \<and> [[[0, 0], [0, 0]], [[0, 0], [0, 255 :: u8]]]
       = flip_axis 0 (flip_axis 1 (flip_axis 2
           (map3 (\<lambda>v. if v > 128 then 255 else 0) [[[200, 0], [128, 0]], [[0, 0], [0, 0 :: int]]])))"
proof -
  let ?G = "Some (\<lambda>fname :: string. Inr 0 :: error + int)"
  let ?py = "\<lambda>s :: string. Inl ValueError :: error + int"
  let ?ref = "[[[0, 0], [0, 0]], [[0, 0], [0, 0 :: int]]]"
  let ?dir = "[(''s0000.jpg'', Some ''jpg'', [[200, 0], [128, 0 :: u8]])]"
  have place: "place_slices (layer_method ?py ?G) ?dir (zeros_like ?ref) []
      = ([Imread ''s0000.jpg''], [[[200, 0], [128, 0]], [[0, 0], [0, 0]]], None)"
    by (simp add: layer_method_def zeros_like_def map3_def setitem_def Let_def)
  have run: "OrganConvert ?py (Some ?ref) (\<lambda>p. True) ?dir ''out/Liver.nii'' ?G 128
     = ([Imread ''s0000.jpg'', WriteImage ''out/Liver.nii'' [[[0, 0], [0, 0]], [[0, 0], [0, 255]]]],
        Inr [[[0, 0], [0, 0]], [[0, 0], [0, 255]]])"
    by (simp add: OrganConvert_def zeros_like_def map3_def setitem_def binarize_def np_flip_def
          Let_def)
  from binarize_and_flip[OF run] place
  have "[[[0, 0], [0, 0]], [[0, 0], [0, 255 :: u8]]]
       = flip_axis 0 (flip_axis 1 (flip_axis 2
           (map3 (\<lambda>v. if v > 128 then 255 else 0) [[[200, 0], [128, 0]], [[0, 0], [0, 0 :: int]]])))"
    by auto
  with run show ?thesis by blast
qed

text \<open>
  C9 as stated fails: the volume returned differs from the binarized array reversed along
  any one axis.
\<close>

theorem flip_one_axis_counterexample:
  "snd (OrganConvert (\<lambda>s. Inl ValueError) (Some [[[0, 0], [0, 0]], [[0, 0], [0, 0]]]) (\<lambda>p. True)
      [(''s0000.jpg'', Some ''jpg'', [[200, 0], [0, 0]])] ''out/Liver.nii''
      (Some (\<lambda>fname. Inr 0)) 128)
     = Inr [[[0, 0], [0, 0]], [[0, 0], [0, 255]]]
   \<and> map3 word_of_int (binarize 128 [[[200, 0], [0, 0]], [[0, 0], [0, 0]]])
     = [[[255, 0], [0, 0]], [[0, 0], [0, 0 :: u8]]]
   \<and> [[[0, 0], [0, 0]], [[0, 0], [0, 255]]] \<noteq> flip_axis 0 [[[255, 0], [0, 0]], [[0, 0], [0, 0 :: u8]]]
   \<and> [[[0, 0], [0, 0]], [[0, 0], [0, 255]]] \<noteq> flip_axis 1 [[[255, 0], [0, 0]], [[0, 0], [0, 0 :: u8]]]
   \<and> [[[0, 0], [0, 0]], [[0, 0], [0, 255]]] \<noteq> flip_axis 2 [[[255, 0], [0, 0]], [[0, 0], [0, 0 :: u8]]]"
  by (simp add: OrganConvert_def zeros_like_def map3_def setitem_def binarize_def np_flip_def
        flip_axis_def Let_def)





section \<open>The overlap analysis\<close>

lemma analyse_pairs_step:
  assumes "length (snd (organs ! i)) = length (snd (organs ! j))"
  shows "analyse_pairs ops organs ((i, j) # rest) log printed =
           analyse_pairs ops organs rest (log @ reads_of organs (i, j))
             (if reported ops organs (i, j) then printed @ [report_of ops organs (i, j)]
              else printed)"
  using assms
  by (simp add: Let_def reported_def report_of_def reads_of_def percent_def overlap_of_def
        voxels_of_def)

lemma analyse_pairs_eq:
  assumes "\<forall>(i, j) \<in> set ps. length (snd (organs ! i)) = length (snd (organs ! j))"
  shows "analyse_pairs ops organs ps log printed =
           (log @ concat (map (reads_of organs) ps),
            printed @ map (report_of ops organs) (filter (reported ops organs) ps), Inr 0)"
  using assms
proof (induction ps arbitrary: log printed)
  case Nil
  then show ?case by simp
next
  case (Cons p ps)
  obtain i j where p: "p = (i, j)" by (cases p)
  from Cons.prems have len: "length (snd (organs ! i)) = length (snd (organs ! j))"
    and rest: "\<forall>(i, j) \<in> set ps. length (snd (organs ! i)) = length (snd (organs ! j))"
    by (auto simp: p)
  show ?case
    unfolding p analyse_pairs_step[OF len] Cons.IH[OF rest]
    by simp
qed

lemma in_index_pairs: "((i, j) \<in> set (index_pairs n)) = (i < j \<and> j < n)"
proof
  assume "(i, j) \<in> set (index_pairs n)"
  then show "i < j \<and> j < n"
    by (simp add: index_pairs_def image_iff)
next
  assume a: "i < j \<and> j < n"
  then have "i < n \<and> (i, j) \<in> set (map (\<lambda>j. (i, j)) [Suc i..<n])"
    by simp
  then show "(i, j) \<in> set (index_pairs n)"
    by (simp add: index_pairs_def image_iff)
qed

lemma same_shape_pairs:
  assumes "same_shape organs"
  shows "\<forall>(i, j) \<in> set (index_pairs (length organs)).
           length (snd (organs ! i)) = length (snd (organs ! j))"
proof (intro ballI)
  fix p assume p: "p \<in> set (index_pairs (length organs))"
  obtain i j where ij: "p = (i, j)" by (cases p)
  with p have "i < j" "j < length organs" by (simp_all add: in_index_pairs)
  then have "organs ! i \<in> set organs" "organs ! j \<in> set organs" by simp_all
  moreover have "\<forall>a \<in> set organs. \<forall>b \<in> set organs. length (snd a) = length (snd b)"
    using assms unfolding same_shape_def list_all_iff .
  ultimately have "length (snd (organs ! i)) = length (snd (organs ! j))"
    by blast
  then show "case p of (i, j) \<Rightarrow> length (snd (organs ! i)) = length (snd (organs ! j))"
    by (simp add: ij)
qed

lemma np_sum_zero: "(np_sum bs = 0) = (\<forall>c \<in> set bs. \<not> c)"
  by (simp add: np_sum_def filter_empty_conv)

lemma np_sum_and_zero:
  assumes "list_all (\<lambda>(x, y). \<not> (x \<noteq> 0 \<and> y \<noteq> 0)) (zip a b)"
  shows "np_sum (map2 (\<and>) (astype_bool a) (astype_bool b)) = 0"
proof -
  have "\<not> c" if "c \<in> set (map2 (\<and>) (astype_bool a) (astype_bool b))" for c
  proof -
    from that obtain s t where st: "(s, t) \<in> set (zip (astype_bool a) (astype_bool b))" "c = (s \<and> t)"
      by auto
    then obtain k where k: "k < length a" "k < length b" "s = (a ! k \<noteq> 0)" "t = (b ! k \<noteq> 0)"
      by (auto simp: in_set_zip)
    then have "(a ! k, b ! k) \<in> set (zip a b)"
      by (auto simp: in_set_zip)
    with assms have "\<not> (a ! k \<noteq> 0 \<and> b ! k \<noteq> 0)"
      unfolding list_all_iff by blast
    with st(2) k show ?thesis by simp
  qed
  then show ?thesis unfolding np_sum_zero by blast
qed

lemma distinct_concat_map:
  assumes "distinct xs" and "\<And>x. x \<in> set xs \<Longrightarrow> distinct (f x)"
    and "\<And>x y. x \<in> set xs \<Longrightarrow> y \<in> set xs \<Longrightarrow> x \<noteq> y \<Longrightarrow> set (f x) \<inter> set (f y) = {}"
  shows "distinct (concat (map f xs))"
  using assms
proof (induction xs)
  case Nil
  then show ?case by simp
next
  case (Cons x xs)
  have "distinct (concat (map f xs))"
    by (rule Cons.IH) (use Cons.prems in auto)
  moreover have "distinct (f x)" by (rule Cons.prems(2)) simp
  moreover have "set (f x) \<inter> set (f y) = {}" if "y \<in> set xs" for y
    using Cons.prems(1) that by (intro Cons.prems(3)) auto
  ultimately show ?case by auto
qed

lemma distinct_index_pairs: "distinct (index_pairs n)"
  unfolding index_pairs_def
proof (rule distinct_concat_map)
  show "distinct [0..<n]" by simp
next
  fix i show "distinct (map (\<lambda>j. (i, j)) [Suc i..<n])"
    by (simp add: distinct_map inj_on_def)
next
  fix i k :: nat assume "i \<noteq> k"
  then show "set (map (\<lambda>j. (i, j)) [Suc i..<n]) \<inter> set (map (\<lambda>j. (k, j)) [Suc k..<n]) = {}"
    by auto
qed

lemma disjoint_not_reported:
  assumes "disjoint_masks organs"
  shows "filter (reported ops organs) (index_pairs (length organs)) = []"
proof -
  have "\<not> reported ops organs p" if "p \<in> set (index_pairs (length organs))" for p
  proof -
    obtain i j where p: "p = (i, j)" by (cases p)
    from assms that have
      "list_all (\<lambda>(x, y). \<not> (x \<noteq> 0 \<and> y \<noteq> 0)) (zip (snd (organs ! i)) (snd (organs ! j)))"
      unfolding disjoint_masks_def list_all_iff p by blast
    then have "overlap_of organs i j = 0"
      unfolding overlap_of_def by (rule np_sum_and_zero)
    then show ?thesis by (simp add: reported_def p)
  qed
  then show ?thesis by (simp add: filter_empty_conv)
qed

text \<open>
  C7. On masks of one shape, \<^verbatim>\<open>AnalyseOverlap\<close> visits every pair of indices \<open>i < j\<close> of the
  files left by the stop list exactly once, prints a line for a pair if and only if the
  intersection is not empty and one of the two percentages is at least 1, and returns 0.
  It prints nothing when the masks are pairwise disjoint, and its only calls are reads.
\<close>

theorem overlap_report_condition:
  assumes "same_shape (kept folder_organs stop_organ_list)"
  shows "AnalyseOverlap ops folder_organs stop_organ_list =
           (concat (map (reads_of (kept folder_organs stop_organ_list))
                      (index_pairs (length (kept folder_organs stop_organ_list)))),
            map (report_of ops (kept folder_organs stop_organ_list))
              (filter (reported ops (kept folder_organs stop_organ_list))
                 (index_pairs (length (kept folder_organs stop_organ_list)))),
            Inr 0)
     \<and> (\<forall>i j. ((i, j) \<in> set (index_pairs (length (kept folder_organs stop_organ_list))))
                 = (i < j \<and> j < length (kept folder_organs stop_organ_list)))
     \<and> distinct (index_pairs (length (kept folder_organs stop_organ_list)))
     \<and> (disjoint_masks (kept folder_organs stop_organ_list)
            \<longrightarrow> fst (snd (AnalyseOverlap ops folder_organs stop_organ_list)) = [])
     \<and> (\<forall>ev \<in> set (fst (AnalyseOverlap ops folder_organs stop_organ_list)). \<exists>f. ev = ReadImage f)"
proof -
  let ?organs = "kept folder_organs stop_organ_list"
  let ?n = "length ?organs"
  have run: "AnalyseOverlap ops folder_organs stop_organ_list =
           (concat (map (reads_of ?organs) (index_pairs ?n)),
            map (report_of ops ?organs) (filter (reported ops ?organs) (index_pairs ?n)), Inr 0)"
    using analyse_pairs_eq[OF same_shape_pairs[OF assms], of ops "[]" "[]"]
    by (simp add: AnalyseOverlap_def kept_def Let_def)
  have dj: "fst (snd (AnalyseOverlap ops folder_organs stop_organ_list)) = []"
    if "disjoint_masks ?organs"
    unfolding run using disjoint_not_reported[OF that, of ops] by simp
  have ev: "\<exists>f. ev = ReadImage f"
    if "ev \<in> set (fst (AnalyseOverlap ops folder_organs stop_organ_list))" for ev
    using that unfolding run by (auto simp: reads_of_def)
  from run dj ev in_index_pairs distinct_index_pairs show ?thesis by blast
qed

lemma index_pairs_3: "index_pairs 3 = [(0, 1), (0, 2), (1, 2)]"
  by (simp add: index_pairs_def upt_rec)

theorem overlap_report_condition_witness:
  "fst (snd (AnalyseOverlap exact_ops
       [(''Liver.nii'', [255, 255, 0, 0]), (''Kidney.nii'', [0, 255, 255, 0]),
        (''Lung.nii'', [0, 0, 0, 255])] None))
     = [\<lparr>r_overlap = 1, r_percent_i = (100, 2), r_percent_j = (100, 2),
         r_organ_i = ''Liver'', r_n_i = 2, r_organ_j = ''Kidney'', r_n_j = 2, r_ratio = (2, 2)\<rparr>]
   \<and> fst (snd (AnalyseOverlap exact_ops
       [(''Liver.nii'', [255, 0]), (''Skin.nii'', [255, 255]), (''Lung.nii'', [0, 255])]
       (Some [''Skin.nii''])))
     = []"
proof -
  let ?d1 = "[(''Liver.nii'', [255, 255, 0, 0 :: u8]), (''Kidney.nii'', [0, 255, 255, 0]),
        (''Lung.nii'', [0, 0, 0, 255])]"
  let ?d2 = "[(''Liver.nii'', [255, 0 :: u8]), (''Skin.nii'', [255, 255]), (''Lung.nii'', [0, 255])]"
  have k1: "kept ?d1 None = ?d1" and k2: "kept ?d2 (Some [''Skin.nii'']) = [(''Liver.nii'', [255, 0]), (''Lung.nii'', [0, 255])]"
    by (simp_all add: kept_def)
  have s1: "same_shape (kept ?d1 None)" and s2: "same_shape (kept ?d2 (Some [''Skin.nii'']))"
    unfolding k1 k2 by (simp_all add: same_shape_def)
  have dj: "disjoint_masks (kept ?d2 (Some [''Skin.nii'']))"
    unfolding k2 by (simp add: disjoint_masks_def index_pairs_def upt_rec)
  have f: "filter (reported exact_ops ?d1) [(0, 1), (0, 2), (1, 2)] = [(0, 1)]"
    by (simp add: reported_def overlap_of_def voxels_of_def percent_def exact_ops_def
          np_sum_def astype_bool_def)
  have r: "report_of exact_ops ?d1 (0, 1)
      = \<lparr>r_overlap = 1, r_percent_i = (100, 2), r_percent_j = (100, 2),
         r_organ_i = ''Liver'', r_n_i = 2, r_organ_j = ''Kidney'', r_n_j = 2, r_ratio = (2, 2)\<rparr>"
    by (simp add: report_of_def overlap_of_def voxels_of_def percent_def exact_ops_def
          np_sum_def astype_bool_def stem_def)
  have l1: "length ?d1 = 3" by simp
  note t = overlap_report_condition[OF s1, of exact_ops, unfolded k1 l1]
  have "fst (snd (AnalyseOverlap exact_ops ?d1 None))
          = map (report_of exact_ops ?d1) (filter (reported exact_ops ?d1) (index_pairs 3))"
    using t[THEN conjunct1] by (simp only: fst_conv snd_conv)
  then have 1: "fst (snd (AnalyseOverlap exact_ops ?d1 None))
     = [\<lparr>r_overlap = 1, r_percent_i = (100, 2), r_percent_j = (100, 2),
         r_organ_i = ''Liver'', r_n_i = 2, r_organ_j = ''Kidney'', r_n_j = 2, r_ratio = (2, 2)\<rparr>]"
    unfolding index_pairs_3 f by (simp only: list.map r)
  from overlap_report_condition[OF s2, of exact_ops] dj
  have 2: "fst (snd (AnalyseOverlap exact_ops ?d2 (Some [''Skin.nii'']))) = []"
    by blast
  from 1 2 show ?thesis by blast
qed

end
